theory Spec2Isabelle
  imports
    Main
    "HOL-Library.AList"
    "HOL-Library.Char_ord"
    "HOL-Library.List_Lexorder"
    "HOL-Library.Multiset"
    "HOL-Library.Sublist"
begin

section \<open>Strings and the URI component codec\<close>

text \<open>
  A JavaScript string is modelled by the bytes of its UTF-8 form, as a \<^typ>\<open>string\<close>.
  All the source does with strings is concatenate them, compare them for equality, test
  them for emptiness, split them at an ASCII separator, sort ASCII tokens and hand them
  to \<^verbatim>\<open>encodeURIComponent\<close> / \<^verbatim>\<open>decodeURIComponent\<close>; none of that depends on
  the width of the code unit. A string with an unpaired surrogate has no UTF-8 form:
  \<^verbatim>\<open>encodeURIComponent\<close> throws \<^verbatim>\<open>URIError\<close> on it, and it lies outside the model.

  The two built-ins follow ECMA-262 (\<^verbatim>\<open>Encode\<close> and \<^verbatim>\<open>Decode\<close>, with the
  unescaped set of \<^verbatim>\<open>encodeURIComponent\<close> and the empty reserved set of
  \<^verbatim>\<open>decodeURIComponent\<close>). On UTF-8 bytes \<^verbatim>\<open>Encode\<close> keeps an unescaped ASCII
  character and writes every other byte as \<^verbatim>\<open>%XX\<close> with upper-case hex digits.
\<close>

datatype error = URIError

definition isUnescaped :: "char \<Rightarrow> bool" where
  "isUnescaped c =
     (let n = (of_char c :: nat) in
        (65 \<le> n \<and> n \<le> 90) \<or> (97 \<le> n \<and> n \<le> 122) \<or> (48 \<le> n \<and> n \<le> 57) \<or>
        n = 45 \<or> n = 95 \<or> n = 46 \<or> n = 33 \<or> n = 126 \<or> n = 42 \<or> n = 39 \<or> n = 40 \<or> n = 41)"

definition hexDigit :: "nat \<Rightarrow> char" where
  "hexDigit d = (if d < 10 then char_of (48 + d) else char_of (55 + d))"

definition escapeOctet :: "char \<Rightarrow> string" where
  "escapeOctet c =
     [CHR ''%'', hexDigit ((of_char c :: nat) div 16), hexDigit ((of_char c :: nat) mod 16)]"

definition encodeURIComponent :: "string \<Rightarrow> string" where
  "encodeURIComponent s = concat (map (\<lambda>c. if isUnescaped c then [c] else escapeOctet c) s)"

definition hexValue :: "char \<Rightarrow> nat option" where
  "hexValue c =
     (let n = (of_char c :: nat) in
        if 48 \<le> n \<and> n \<le> 57 then Some (n - 48)
        else if 65 \<le> n \<and> n \<le> 70 then Some (n - 55)
        else if 97 \<le> n \<and> n \<le> 102 then Some (n - 87)
        else None)"

definition parseHexOctet :: "char \<Rightarrow> char \<Rightarrow> nat option" where
  "parseHexOctet h l =
     (case hexValue h of
        None \<Rightarrow> None
      | Some a \<Rightarrow> (case hexValue l of None \<Rightarrow> None | Some b \<Rightarrow> Some (16 * a + b)))"

text \<open>The number of leading 1 bits of an octet; 5 stands for "more than four".\<close>

definition leadingOnes :: "nat \<Rightarrow> nat" where
  "leadingOnes b =
     (if b < 128 then 0 else if b < 192 then 1 else if b < 224 then 2
      else if b < 240 then 3 else if b < 248 then 4 else 5)"

definition isContinuation :: "nat \<Rightarrow> bool" where
  "isContinuation b = (128 \<le> b \<and> b < 192)"

text \<open>
  Whether a list of two to four octets is the UTF-8 encoding of one code point: the
  continuation octets have the form 10xxxxxx, the encoding is the shortest one, and the
  code point is neither a surrogate nor above U+10FFFF.
\<close>

fun validUtf8 :: "nat list \<Rightarrow> bool" where
  "validUtf8 [b0, b1] =
     (leadingOnes b0 = 2 \<and> isContinuation b1 \<and> 128 \<le> (b0 - 192) * 64 + (b1 - 128))"
| "validUtf8 [b0, b1, b2] =
     (leadingOnes b0 = 3 \<and> isContinuation b1 \<and> isContinuation b2 \<and>
      (let cp = (b0 - 224) * 4096 + (b1 - 128) * 64 + (b2 - 128)
       in 2048 \<le> cp \<and> (cp < 55296 \<or> 57343 < cp)))"
| "validUtf8 [b0, b1, b2, b3] =
     (leadingOnes b0 = 4 \<and> isContinuation b1 \<and> isContinuation b2 \<and> isContinuation b3 \<and>
      (let cp = (b0 - 240) * 262144 + (b1 - 128) * 4096 + (b2 - 128) * 64 + (b3 - 128)
       in 65536 \<le> cp \<and> cp \<le> 1114111))"
| "validUtf8 _ = False"

text \<open>Reads \<open>n\<close> further escapes \<^verbatim>\<open>%XX\<close>; \<open>None\<close> where \<^verbatim>\<open>Decode\<close> throws.\<close>

fun takeEscapes :: "nat \<Rightarrow> string \<Rightarrow> (nat list \<times> string) option" where
  "takeEscapes 0 s = Some ([], s)"
| "takeEscapes (Suc n) (p # h # l # s) =
     (if p = CHR ''%'' then
        (case parseHexOctet h l of
           None \<Rightarrow> None
         | Some b \<Rightarrow>
             (case takeEscapes n s of
                None \<Rightarrow> None
              | Some (bs, r) \<Rightarrow> Some (b # bs, r)))
      else None)"
| "takeEscapes (Suc n) _ = None"

function decodeURIComponent :: "string \<Rightarrow> error + string" where
  "decodeURIComponent [] = Inr []"
| "decodeURIComponent (c # s) =
     (if c \<noteq> CHR ''%'' then
        (case decodeURIComponent s of Inl e \<Rightarrow> Inl e | Inr r \<Rightarrow> Inr (c # r))
      else
        (case s of
           h # l # t \<Rightarrow>
             (case parseHexOctet h l of
                None \<Rightarrow> Inl URIError
              | Some b \<Rightarrow>
                  if leadingOnes b = 0 then
                    (case decodeURIComponent t of Inl e \<Rightarrow> Inl e | Inr r \<Rightarrow> Inr (char_of b # r))
                  else if leadingOnes b = 1 \<or> 4 < leadingOnes b then Inl URIError
                  else
                    (case takeEscapes (leadingOnes b - 1) t of
                       None \<Rightarrow> Inl URIError
                     | Some (bs, t') \<Rightarrow>
                         if validUtf8 (b # bs) then
                           (case decodeURIComponent t' of
                              Inl e \<Rightarrow> Inl e
                            | Inr r \<Rightarrow> Inr (map char_of (b # bs) @ r))
                         else Inl URIError))
         | _ \<Rightarrow> Inl URIError))"
  by pat_completeness auto
termination
proof -
  have shorter: "length r \<le> length s" if "takeEscapes n s = Some (bs, r)" for n s bs r
    using that
  proof (induction n s arbitrary: bs r rule: takeEscapes.induct)
    case (2 n p h l s)
    then show ?case
      by (auto split: if_splits option.splits prod.splits) fastforce
  qed auto
  show ?thesis
    by (relation "measure length") (auto dest: shorter)
qed

text \<open>
  The strings the model stands for: the UTF-8 forms of sequences of code points.
\<close>

fun wellFormed :: "string \<Rightarrow> bool" where
  "wellFormed [] = True"
| "wellFormed (c # s) =
     (let n = leadingOnes (of_char c) in
        if n = 0 then wellFormed s
        else if n = 1 \<or> 4 < n then False
        else n - 1 \<le> length s \<and>
             validUtf8 (of_char c # map of_char (take (n - 1) s)) \<and>
             wellFormed (drop (n - 1) s))"

section \<open>The helpers of \<^verbatim>\<open>utils.ts\<close>\<close>

text \<open>
  \<^verbatim>\<open>CacheConfig\<close> (declared by drizzle-orm): the four TTL fields and \<^verbatim>\<open>keepTtl\<close>,
  each optional. JavaScript numbers are modelled as integers (timestamps and offsets in
  whole milliseconds or seconds).
\<close>

record cacheConfig =
  ex :: "int option"
  px :: "int option"
  exat :: "int option"
  pxat :: "int option"
  keepTtl :: "bool option"

text \<open>\<^verbatim>\<open>x !== undefined\<close>\<close>

definition defined :: "'a option \<Rightarrow> bool" where
  "defined x = (case x of None \<Rightarrow> False | Some _ \<Rightarrow> True)"

definition pickConfigWithTtl :: "cacheConfig option \<Rightarrow> cacheConfig option" where
  "pickConfigWithTtl config =
     (case config of
        None \<Rightarrow> None
      | Some c \<Rightarrow>
          if defined (ex c) \<or> defined (px c) \<or> defined (exat c) \<or> defined (pxat c)
          then Some c else None)"

text \<open>
  \<^verbatim>\<open>MutationOption\<close>: each of \<^verbatim>\<open>tags\<close> and \<^verbatim>\<open>tables\<close> is absent, a single
  item or an array. A table is a drizzle \<^verbatim>\<open>Table\<close> object (of which only the name is
  read, by \<^verbatim>\<open>getTableName\<close>) or a string.
\<close>

datatype 'a oneOrMany = One 'a | Many "'a list"

datatype tableRef = TableObject string | TableName string

record mutationOption =
  mutationTags :: "string oneOrMany option"
  mutationTables :: "tableRef oneOrMany option"

fun tableNameOf :: "tableRef \<Rightarrow> string" where
  "tableNameOf (TableObject n) = n"
| "tableNameOf (TableName s) = s"

text \<open>\<^verbatim>\<open>!tables\<close> holds of \<^verbatim>\<open>undefined\<close> and of the empty string, not of an empty array.\<close>

definition normalizeTables :: "tableRef oneOrMany option \<Rightarrow> string list" where
  "normalizeTables tables =
     (case tables of
        None \<Rightarrow> []
      | Some (One t) \<Rightarrow> if t = TableName [] then [] else [tableNameOf t]
      | Some (Many ts) \<Rightarrow> map tableNameOf ts)"

definition normalizeTags :: "string oneOrMany option \<Rightarrow> string list" where
  "normalizeTags tags =
     (case tags of
        None \<Rightarrow> []
      | Some (One t) \<Rightarrow> if t = [] then [] else [t]
      | Some (Many ts) \<Rightarrow> ts)"

definition encode :: "string \<Rightarrow> string" where
  "encode v = encodeURIComponent v"

text \<open>\<^verbatim>\<open>Array.prototype.join\<close> and \<^verbatim>\<open>String.prototype.split\<close> with a one-character separator.\<close>

fun joinWith :: "char \<Rightarrow> string list \<Rightarrow> string" where
  "joinWith sep [] = []"
| "joinWith sep [x] = x"
| "joinWith sep (x # y # ys) = x @ sep # joinWith sep (y # ys)"

fun splitOn :: "char \<Rightarrow> string \<Rightarrow> string list" where
  "splitOn sep [] = [[]]"
| "splitOn sep (c # s) =
     (if c = sep then [] # splitOn sep s
      else (case splitOn sep s of [] \<Rightarrow> [[c]] | p # ps \<Rightarrow> (c # p) # ps))"

text \<open>
  The default \<^verbatim>\<open>sort()\<close> orders strings by their code units; the tokens sorted here
  are outputs of \<^verbatim>\<open>encode\<close>, hence ASCII, and \<^const>\<open>sort\<close> orders them the same way.
\<close>

definition makeTablesKey :: "string list \<Rightarrow> string" where
  "makeTablesKey tables =
     (if tables = [] then [] else joinWith CHR '','' (sort (map encode tables)))"

fun mapDecode :: "string list \<Rightarrow> error + string list" where
  "mapDecode [] = Inr []"
| "mapDecode (x # xs) =
     (case decodeURIComponent x of
        Inl e \<Rightarrow> Inl e
      | Inr y \<Rightarrow> (case mapDecode xs of Inl e \<Rightarrow> Inl e | Inr ys \<Rightarrow> Inr (y # ys)))"

definition decodeTablesKey :: "string option \<Rightarrow> error + string list" where
  "decodeTablesKey tablesKey =
     (case tablesKey of
        None \<Rightarrow> Inr []
      | Some k \<Rightarrow>
          if k = [] then Inr []
          else mapDecode (filter (\<lambda>p. p \<noteq> []) (splitOn CHR '','' k)))"

record indexKeyParts =
  partTableEnc :: string
  partTablesKey :: string
  partIsTag :: bool
  partKeyEnc :: string

definition parseIndexKey :: "string \<Rightarrow> indexKeyParts option" where
  "parseIndexKey key =
     (case splitOn CHR '':'' key of
        [p0, tableEnc, tablesKey, kind, keyEnc] \<Rightarrow>
          if p0 \<noteq> ''__CTS__'' then None
          else if tableEnc = [] \<or> tablesKey = [] \<or> keyEnc = [] then None
          else if kind \<noteq> ''q'' \<and> kind \<noteq> ''t'' then None
          else Some \<lparr>partTableEnc = tableEnc, partTablesKey = tablesKey,
                      partIsTag = (kind = ''t''), partKeyEnc = keyEnc\<rparr>
      | _ \<Rightarrow> None)"

section \<open>The storage backend\<close>

text \<open>
  Modelled from the spec: the storage backend is the external library \<^verbatim>\<open>unstorage\<close>,
  of which the cache consumes \<^verbatim>\<open>getItem\<close>, \<^verbatim>\<open>setItem\<close>/\<^verbatim>\<open>setItems\<close>,
  \<^verbatim>\<open>removeItem\<close> and \<^verbatim>\<open>getKeys(prefix)\<close> (section 6 of the spec: get, set,
  delete by key, and enumeration of the keys with a given prefix). It is a flat
  association of keys to values; the namespace prefix that \<^verbatim>\<open>prefixStorage\<close> puts in
  front of every key is left out. The TTL hint of a write is one the backend may ignore,
  and this backend ignores it, as the memory driver does.

  A stored value is a cache entry, a string (a tag-map record) or a number (an index
  record). \<^verbatim>\<open>getItem<T>\<close> is read at the type the source states.
\<close>

record 'v cacheEntry =
  entryValue :: "'v"
  expiresAt :: "int option"
  entryTables :: "string list option"

datatype 'v storageValue = Entry "'v cacheEntry" | Text string | Number int

type_synonym 'v storage = "(string \<times> 'v storageValue) list"

definition getItem :: "'v storage \<Rightarrow> string \<Rightarrow> 'v storageValue option" where
  "getItem st k = map_of st k"

definition getText :: "'v storage \<Rightarrow> string \<Rightarrow> string option" where
  "getText st k = (case getItem st k of Some (Text s) \<Rightarrow> Some s | _ \<Rightarrow> None)"

definition getEntry :: "'v storage \<Rightarrow> string \<Rightarrow> 'v cacheEntry option" where
  "getEntry st k = (case getItem st k of Some (Entry e) \<Rightarrow> Some e | _ \<Rightarrow> None)"

definition setItem :: "string \<Rightarrow> 'v storageValue \<Rightarrow> 'v storage \<Rightarrow> 'v storage" where
  "setItem k v st = AList.update k v st"

definition removeItem :: "string \<Rightarrow> 'v storage \<Rightarrow> 'v storage" where
  "removeItem k st = AList.delete k st"

definition getKeys :: "string \<Rightarrow> 'v storage \<Rightarrow> string list" where
  "getKeys base st = filter (prefix base) (map fst st)"

definition setItems ::
  "(string \<times> 'v storageValue) list \<Rightarrow> int option \<Rightarrow> 'v storage \<Rightarrow> 'v storage" where
  "setItems items ttlOptions st = fold (\<lambda>item. setItem (fst item) (snd item)) items st"

section \<open>The cache of \<^verbatim>\<open>unstorage-cache.ts\<close>\<close>

text \<open>
  Every method takes the storage and returns it updated; a method that reads the clock
  takes \<open>now\<close>, the value of \<^verbatim>\<open>Date.now()\<close>. A rejected promise is \<^term>\<open>Inl URIError\<close>.
  The \<^verbatim>\<open>await\<close>s of one method run in program order. The members of a
  \<^verbatim>\<open>Promise.all\<close> are run one after the other in array order: the interleaving of
  concurrent promises is not modelled. Debug logging is left out: it changes neither
  the storage nor a result.
\<close>

definition DEFAULT_TTL_MS :: int where
  "DEFAULT_TTL_MS = 1000"

definition VALUE_AUTO_PREFIX :: string where
  "VALUE_AUTO_PREFIX = ''__CT__''"

definition VALUE_NON_AUTO_PREFIX :: string where
  "VALUE_NON_AUTO_PREFIX = ''__NAI__''"

definition INDEX_PREFIX :: string where
  "INDEX_PREFIX = ''__CTS__''"

definition TAG_MAP_PREFIX :: string where
  "TAG_MAP_PREFIX = ''__tagsMap__''"

definition kindOf :: "bool \<Rightarrow> string" where
  "kindOf isTag = (if isTag then ''t'' else ''q'')"

definition valueKey :: "bool \<Rightarrow> bool \<Rightarrow> string \<Rightarrow> string option \<Rightarrow> string" where
  "valueKey autoInvalidate isTag keyEnc tablesKey =
     (if \<not> autoInvalidate then VALUE_NON_AUTO_PREFIX @ '':'' @ kindOf isTag @ '':'' @ keyEnc
      else VALUE_AUTO_PREFIX @ '':'' @ (case tablesKey of None \<Rightarrow> [] | Some k \<Rightarrow> k) @ '':'' @
           kindOf isTag @ '':'' @ keyEnc)"

definition indexKey :: "string \<Rightarrow> string \<Rightarrow> bool \<Rightarrow> string \<Rightarrow> string" where
  "indexKey table tablesKey isTag keyEnc =
     INDEX_PREFIX @ '':'' @ encode table @ '':'' @ tablesKey @ '':'' @ kindOf isTag @ '':'' @ keyEnc"

definition tagMapKey :: "string \<Rightarrow> string" where
  "tagMapKey tagEnc = TAG_MAP_PREFIX @ '':'' @ tagEnc"

definition isExpired :: "int \<Rightarrow> 'v cacheEntry \<Rightarrow> bool" where
  "isExpired now entry = (case expiresAt entry of None \<Rightarrow> False | Some e \<Rightarrow> e \<le> now)"

text \<open>
  \<^verbatim>\<open>config?.keepTtl && existingExpiresAt && existingExpiresAt > now\<close>: the middle
  conjunct is a truthiness test, which the number 0 fails.
\<close>

definition toExpiresAt ::
  "cacheConfig option \<Rightarrow> int \<Rightarrow> cacheConfig option \<Rightarrow> int option \<Rightarrow> int option" where
  "toExpiresAt defaultConfig now config existingExpiresAt =
     (if (case config of None \<Rightarrow> False | Some c \<Rightarrow> keepTtl c = Some True) \<and>
         (case existingExpiresAt of None \<Rightarrow> False | Some e \<Rightarrow> e \<noteq> 0 \<and> e > now)
      then existingExpiresAt
      else
        (case (case pickConfigWithTtl config of
                 Some c \<Rightarrow> Some c
               | None \<Rightarrow> pickConfigWithTtl defaultConfig) of
           None \<Rightarrow> Some (now + DEFAULT_TTL_MS)
         | Some source \<Rightarrow>
             (case px source of
                Some p \<Rightarrow> Some (now + p)
              | None \<Rightarrow>
                  (case ex source of
                     Some e \<Rightarrow> Some (now + e * 1000)
                   | None \<Rightarrow>
                       (case pxat source of
                          Some p \<Rightarrow> Some p
                        | None \<Rightarrow>
                            (case exat source of
                               Some e \<Rightarrow> Some (e * 1000)
                             | None \<Rightarrow> Some (now + DEFAULT_TTL_MS)))))))"

text \<open>
  \<^verbatim>\<open>dropEntry\<close>. The tables are \<^verbatim>\<open>entry?.tables ?? fallbackTables ?? (tablesKey ?
  decodeTablesKey(tablesKey) : [])\<close>, and an empty \<^verbatim>\<open>resolvedTablesKey\<close> is falsy.
\<close>

definition dropTables ::
  "'v cacheEntry option \<Rightarrow> string list option \<Rightarrow> string option \<Rightarrow> error + string list" where
  "dropTables entry fallbackTables tablesKey =
     (case (case entry of None \<Rightarrow> None | Some e \<Rightarrow> entryTables e) of
        Some ts \<Rightarrow> Inr ts
      | None \<Rightarrow>
          (case fallbackTables of
             Some ts \<Rightarrow> Inr ts
           | None \<Rightarrow>
               (case tablesKey of
                  None \<Rightarrow> Inr []
                | Some k \<Rightarrow> if k = [] then Inr [] else decodeTablesKey (Some k))))"

definition dropEntry ::
  "bool \<Rightarrow> bool \<Rightarrow> string \<Rightarrow> string option \<Rightarrow> 'v cacheEntry option \<Rightarrow> string list option \<Rightarrow>
   bool option \<Rightarrow> 'v storage \<Rightarrow> error + 'v storage" where
  "dropEntry autoInvalidate isTag keyEnc tablesKey entry fallbackTables removeTagMap st =
     (case dropTables entry fallbackTables tablesKey of
        Inl e \<Rightarrow> Inl e
      | Inr tables \<Rightarrow>
          (let resolvedTablesKey =
                 (if autoInvalidate
                  then (case tablesKey of Some k \<Rightarrow> Some k | None \<Rightarrow> Some (makeTablesKey tables))
                  else None);
               st1 = removeItem (valueKey autoInvalidate isTag keyEnc resolvedTablesKey) st;
               st2 = (if isTag \<and> removeTagMap = Some True
                      then removeItem (tagMapKey keyEnc) st1 else st1)
           in (case resolvedTablesKey of
                 None \<Rightarrow> Inr st2
               | Some k \<Rightarrow>
                   if \<not> autoInvalidate \<or> tables = [] \<or> k = [] then Inr st2
                   else Inr (fold removeItem
                               (map (\<lambda>table. indexKey table k isTag keyEnc) tables) st2))))"

text \<open>\<^verbatim>\<open>get\<close>: the result is the value found, or \<open>None\<close> for \<^verbatim>\<open>undefined\<close>.\<close>

definition get ::
  "int \<Rightarrow> string \<Rightarrow> string list \<Rightarrow> bool \<Rightarrow> bool option \<Rightarrow> 'v storage \<Rightarrow>
   error + ('v option \<times> 'v storage)" where
  "get now key tables isTag isAutoInvalidate st =
     (let keyEnc = encode key in
      if isTag then
        (case getText st (tagMapKey keyEnc) of
           None \<Rightarrow> Inr (None, st)
         | Some mapValue \<Rightarrow>
             if mapValue = [] then Inr (None, st)
             else
               (let autoInvalidate = (mapValue \<noteq> ''NAI'');
                    tablesKey = (if autoInvalidate then Some mapValue else None)
                in (case getEntry st (valueKey autoInvalidate True keyEnc tablesKey) of
                      None \<Rightarrow> Inr (None, st)
                    | Some entry \<Rightarrow>
                        if isExpired now entry then
                          (case (if autoInvalidate then decodeTablesKey tablesKey else Inr []) of
                             Inl e \<Rightarrow> Inl e
                           | Inr fallbackTables \<Rightarrow>
                               (case dropEntry autoInvalidate isTag keyEnc tablesKey (Some entry)
                                       (Some fallbackTables) (Some True) st of
                                  Inl e \<Rightarrow> Inl e
                                | Inr st' \<Rightarrow> Inr (None, st')))
                        else Inr (Some (entryValue entry), st))))
      else
        (let autoInvalidate =
               (case isAutoInvalidate of Some a \<Rightarrow> a | None \<Rightarrow> tables \<noteq> []);
             tablesKey = (if autoInvalidate then Some (makeTablesKey tables) else None)
         in (case getEntry st (valueKey autoInvalidate False keyEnc tablesKey) of
               None \<Rightarrow> Inr (None, st)
             | Some entry \<Rightarrow>
                 if isExpired now entry then
                   (case dropEntry autoInvalidate False keyEnc tablesKey (Some entry)
                           (Some tables) None st of
                      Inl e \<Rightarrow> Inl e
                    | Inr st' \<Rightarrow> Inr (None, st'))
                 else Inr (Some (entryValue entry), st))))"

text \<open>
  \<^verbatim>\<open>put\<close>. \<^verbatim>\<open>Math.max(1, Math.ceil((expiresAt - now) / 1000))\<close> is the TTL hint in
  seconds; \<open>putIndexKeys\<close> are the index keys of lines 156 to 160 and \<open>putWrites\<close> the
  array \<^verbatim>\<open>writes\<close>.
\<close>

definition ttlSecondsOf :: "int \<Rightarrow> int \<Rightarrow> int" where
  "ttlSecondsOf now e = max 1 (- ((now - e) div 1000))"

definition putIndexKeys :: "bool \<Rightarrow> string option \<Rightarrow> string list \<Rightarrow> bool \<Rightarrow> string \<Rightarrow> string list" where
  "putIndexKeys autoInvalidate tablesKey tables isTag keyEnc =
     (case tablesKey of
        None \<Rightarrow> []
      | Some k \<Rightarrow>
          if autoInvalidate \<and> k \<noteq> [] then map (\<lambda>table. indexKey table k isTag keyEnc) tables
          else [])"

definition putWrites ::
  "bool \<Rightarrow> string option \<Rightarrow> string list \<Rightarrow> bool \<Rightarrow> string \<Rightarrow> 'v cacheEntry \<Rightarrow> int option \<Rightarrow>
   (string \<times> 'v storageValue) list" where
  "putWrites autoInvalidate tablesKey tables isTag keyEnc entry e =
     [(valueKey autoInvalidate isTag keyEnc tablesKey, Entry entry)] @
     (case tablesKey of
        None \<Rightarrow> if isTag then [(tagMapKey keyEnc, Text ''NAI'')] else []
      | Some k \<Rightarrow>
          if autoInvalidate \<and> k \<noteq> [] then
            map (\<lambda>ik. (ik, Number (case e of None \<Rightarrow> 1 | Some x \<Rightarrow> x)))
              (putIndexKeys autoInvalidate tablesKey tables isTag keyEnc) @
            (if isTag then [(tagMapKey keyEnc, Text k)] else [])
          else if isTag then [(tagMapKey keyEnc, Text ''NAI'')] else [])"

definition setMany ::
  "(string \<times> 'v storageValue) list \<Rightarrow> int option \<Rightarrow> 'v storage \<Rightarrow> 'v storage" where
  "setMany items ttlSeconds st =
     setItems items (case ttlSeconds of None \<Rightarrow> None | Some t \<Rightarrow> if t = 0 then None else Some t) st"

text \<open>
  Lines 129 to 132 of \<^verbatim>\<open>put\<close>: the existing entry is read only when \<^verbatim>\<open>keepTtl\<close> is
  requested, and the expiry is resolved from it.
\<close>

definition putExpiresAt ::
  "cacheConfig option \<Rightarrow> int \<Rightarrow> cacheConfig option \<Rightarrow> string \<Rightarrow> 'v storage \<Rightarrow> int option" where
  "putExpiresAt defaultConfig now config vKey st =
     (let keep = (case config of None \<Rightarrow> False | Some c \<Rightarrow> keepTtl c = Some True);
          existing = (if keep then getEntry st vKey else None)
      in toExpiresAt defaultConfig now config
           (case existing of None \<Rightarrow> None | Some x \<Rightarrow> expiresAt x))"

definition put ::
  "cacheConfig option \<Rightarrow> int \<Rightarrow> string \<Rightarrow> 'v \<Rightarrow> string list \<Rightarrow> bool \<Rightarrow> cacheConfig option \<Rightarrow>
   'v storage \<Rightarrow> error + 'v storage" where
  "put defaultConfig now key response tables isTag config st =
     (let autoInvalidate = (tables \<noteq> []);
          keyEnc = encode key;
          tablesKey = (if autoInvalidate then Some (makeTablesKey tables) else None);
          vKey = valueKey autoInvalidate isTag keyEnc tablesKey;
          e = putExpiresAt defaultConfig now config vKey st
      in if (case e of None \<Rightarrow> False | Some x \<Rightarrow> x \<le> now) then
           dropEntry autoInvalidate isTag keyEnc tablesKey None (Some tables) None st
         else
           (let ttlSeconds = (case e of None \<Rightarrow> None | Some x \<Rightarrow> Some (ttlSecondsOf now x));
                entry = \<lparr>entryValue = response, expiresAt = e,
                         entryTables = (if autoInvalidate then Some tables else None)\<rparr>
            in Inr (setMany (putWrites autoInvalidate tablesKey tables isTag keyEnc entry e)
                      ttlSeconds st)))"

text \<open>
  Tag invalidation. \<^verbatim>\<open>!mapValue\<close> holds of a missing record and of the empty string.
\<close>

definition invalidateTag :: "string \<Rightarrow> 'v storage \<Rightarrow> error + 'v storage" where
  "invalidateTag tag st =
     (let keyEnc = encode tag in
      (case getText st (tagMapKey keyEnc) of
         None \<Rightarrow> Inr (removeItem (tagMapKey keyEnc) (removeItem (valueKey False True keyEnc None) st))
       | Some mapValue \<Rightarrow>
           if mapValue = [] \<or> mapValue = ''NAI'' then
             Inr (removeItem (tagMapKey keyEnc) (removeItem (valueKey False True keyEnc None) st))
           else
             (case decodeTablesKey (Some mapValue) of
                Inl e \<Rightarrow> Inl e
              | Inr tables \<Rightarrow>
                  Inr (removeItem (tagMapKey keyEnc)
                        (fold removeItem
                          (map (\<lambda>table. indexKey table mapValue True keyEnc) tables)
                          (removeItem (valueKey True True keyEnc (Some mapValue)) st))))))"

fun invalidateTags :: "string list \<Rightarrow> 'v storage \<Rightarrow> error + 'v storage" where
  "invalidateTags [] st = Inr st"
| "invalidateTags (tag # tags) st =
     (case invalidateTag tag st of Inl e \<Rightarrow> Inl e | Inr st' \<Rightarrow> invalidateTags tags st')"

text \<open>
  Table invalidation. A JavaScript \<^verbatim>\<open>Set\<close> is the list of its members in insertion
  order; \<open>sweepIndexKeys\<close> is the loop of lines 213 to 221 and \<open>sweepValueKeys\<close> the loop
  of lines 228 to 233.
\<close>

definition setAdd :: "'a \<Rightarrow> 'a list \<Rightarrow> 'a list" where
  "setAdd x xs = (if x \<in> set xs then xs else xs @ [x])"

definition sweepIndexKeys :: "string list \<Rightarrow> 'v storage \<Rightarrow> string list" where
  "sweepIndexKeys tables st =
     fold (\<lambda>table indexKeys.
             fold setAdd (getKeys (INDEX_PREFIX @ '':'' @ encode table @ '':'') st) indexKeys)
       tables []"

definition sweepValueKeys :: "string list \<Rightarrow> string list" where
  "sweepValueKeys indexKeys =
     fold (\<lambda>k valueKeys.
             (case parseIndexKey k of
                None \<Rightarrow> valueKeys
              | Some parsed \<Rightarrow>
                  setAdd (valueKey True (partIsTag parsed) (partKeyEnc parsed)
                            (Some (partTablesKey parsed))) valueKeys))
       indexKeys []"

definition invalidateTables :: "string list \<Rightarrow> 'v storage \<Rightarrow> 'v storage" where
  "invalidateTables tables st =
     (if tables = [] then st
      else
        (let indexKeys = sweepIndexKeys tables st in
         if indexKeys = [] then st
         else fold removeItem (indexKeys @ sweepValueKeys indexKeys) st))"

text \<open>
  \<^verbatim>\<open>onMutate\<close>: \<open>mutatedTags\<close> and \<open>mutatedTables\<close> are the two lists of lines 173 and
  174; \<^verbatim>\<open>Array.from(new Set(xs))\<close> keeps the first occurrence of each member.
\<close>

definition mutatedTags :: "mutationOption \<Rightarrow> string list" where
  "mutatedTags params = normalizeTags (mutationTags params)"

definition mutatedTables :: "mutationOption \<Rightarrow> string list" where
  "mutatedTables params = fold setAdd (normalizeTables (mutationTables params)) []"

definition onMutate :: "mutationOption \<Rightarrow> 'v storage \<Rightarrow> error + 'v storage" where
  "onMutate params st =
     (case invalidateTags (mutatedTags params) st of
        Inl e \<Rightarrow> Inl e
      | Inr st' \<Rightarrow> Inr (invalidateTables (mutatedTables params) st'))"

section \<open>The expiry rule in the words of the spec\<close>

text \<open>
  Section 4.3 of the spec states the resolution of an expiry in three steps. The three
  definitions below follow those words, not the source; \<^const>\<open>toExpiresAt\<close> above is the
  source. Step 1: the request sets \<^verbatim>\<open>keepTtl\<close> and the existing expiry is present and
  still in the future. Step 2: the first TTL field present, in the order
  relative milliseconds, relative seconds, absolute milliseconds, absolute seconds.
  Step 3: the request first, the default configuration next, and 1000 ms from now last.
\<close>

definition specKeepTtlApplies :: "int \<Rightarrow> cacheConfig option \<Rightarrow> int option \<Rightarrow> bool" where
  "specKeepTtlApplies now requested existing =
     ((case requested of None \<Rightarrow> False | Some c \<Rightarrow> keepTtl c = Some True) \<and>
      (case existing of None \<Rightarrow> False | Some e \<Rightarrow> now < e))"

definition specFirstTtl :: "int \<Rightarrow> cacheConfig option \<Rightarrow> int option" where
  "specFirstTtl now config =
     (case config of
        None \<Rightarrow> None
      | Some c \<Rightarrow>
          (case px c of
             Some ms \<Rightarrow> Some (now + ms)
           | None \<Rightarrow>
               (case ex c of
                  Some sec \<Rightarrow> Some (now + 1000 * sec)
                | None \<Rightarrow>
                    (case pxat c of
                       Some ms \<Rightarrow> Some ms
                     | None \<Rightarrow>
                         (case exat c of
                            Some sec \<Rightarrow> Some (1000 * sec)
                          | None \<Rightarrow> None)))))"

definition specResolveExpiry :: "int \<Rightarrow> cacheConfig option \<Rightarrow> cacheConfig option \<Rightarrow> int" where
  "specResolveExpiry now requested defaultConfig =
     (case specFirstTtl now requested of
        Some t \<Rightarrow> t
      | None \<Rightarrow>
          (case specFirstTtl now defaultConfig of
             Some t \<Rightarrow> t
           | None \<Rightarrow> now + 1000))"

section \<open>Properties of the codec\<close>

lemma hexValue_hexDigit: "d < 16 \<Longrightarrow> hexValue (hexDigit d) = Some d"
  by (auto simp: hexValue_def hexDigit_def Let_def)

lemma parseHexOctet_escape:
  "parseHexOctet (hexDigit ((of_char c :: nat) div 16)) (hexDigit ((of_char c :: nat) mod 16)) =
   Some (of_char c)"
proof -
  have "(of_char c :: nat) < 256" by simp
  then have "(of_char c :: nat) div 16 < 16" by (simp add: less_mult_imp_div_less)
  then show ?thesis
    by (simp add: parseHexOctet_def hexValue_hexDigit)
qed

lemma encodeURIComponent_Nil: "encodeURIComponent [] = []"
  by (simp add: encodeURIComponent_def)

lemma encodeURIComponent_Cons:
  "encodeURIComponent (c # s) =
   (if isUnescaped c then [c] else escapeOctet c) @ encodeURIComponent s"
  by (simp add: encodeURIComponent_def)

lemma encodeURIComponent_append:
  "encodeURIComponent (a @ b) = encodeURIComponent a @ encodeURIComponent b"
  by (simp add: encodeURIComponent_def)

lemma isUnescaped_not_percent: "isUnescaped c \<Longrightarrow> c \<noteq> CHR ''%''"
  by (auto simp: isUnescaped_def Let_def)

lemma not_unescaped_high: "128 \<le> (of_char c :: nat) \<Longrightarrow> \<not> isUnescaped c"
  by (auto simp: isUnescaped_def Let_def)

lemma encode_escaped_run:
  "\<forall>c \<in> set cs. \<not> isUnescaped c \<Longrightarrow>
   takeEscapes (length cs) (encodeURIComponent cs @ t) = Some (map of_char cs, t)"
  by (induction cs)
    (auto simp: encodeURIComponent_Cons encodeURIComponent_Nil escapeOctet_def
      parseHexOctet_escape)

lemma decode_unescaped:
  "isUnescaped c \<Longrightarrow>
   decodeURIComponent (c # t) =
   (case decodeURIComponent t of Inl e \<Rightarrow> Inl e | Inr r \<Rightarrow> Inr (c # r))"
  by (simp add: isUnescaped_not_percent)

lemma decode_escaped_ascii:
  "(of_char c :: nat) < 128 \<Longrightarrow>
   decodeURIComponent (escapeOctet c @ t) =
   (case decodeURIComponent t of Inl e \<Rightarrow> Inl e | Inr r \<Rightarrow> Inr (c # r))"
  by (simp add: escapeOctet_def parseHexOctet_escape leadingOnes_def split: sum.splits)

lemma decode_escaped_seq:
  assumes "leadingOnes (of_char c) = n" "1 < n" "n \<le> 4" "length cs = n - 1"
    and "validUtf8 (of_char c # map of_char cs)"
    and "\<forall>x \<in> set cs. \<not> isUnescaped x"
  shows "decodeURIComponent (escapeOctet c @ encodeURIComponent cs @ t) =
         (case decodeURIComponent t of Inl e \<Rightarrow> Inl e | Inr r \<Rightarrow> Inr (c # cs @ r))"
  using assms encode_escaped_run[of cs t]
  by (simp add: escapeOctet_def parseHexOctet_escape comp_def split: sum.splits)

lemma validUtf8_continuations:
  "validUtf8 (b # bs) \<Longrightarrow> \<forall>x \<in> set bs. 128 \<le> x"
  by (cases "(b # bs)" rule: validUtf8.cases) (auto simp: isContinuation_def)

lemma decode_encodeURIComponent:
  "wellFormed s \<Longrightarrow> decodeURIComponent (encodeURIComponent s) = Inr s"
proof (induction s rule: wellFormed.induct)
  case 1
  then show ?case by (simp add: encodeURIComponent_Nil)
next
  case (2 c s)
  define n where "n = leadingOnes (of_char c)"
  show ?case
  proof (cases "n = 0")
    case True
    then have lt: "(of_char c :: nat) < 128"
      by (auto simp: n_def leadingOnes_def split: if_splits)
    from True 2 have "decodeURIComponent (encodeURIComponent s) = Inr s"
      by (simp add: n_def)
    with lt show ?thesis
      by (simp add: encodeURIComponent_Cons decode_escaped_ascii decode_unescaped
          del: decodeURIComponent.simps)
  next
    case False
    with "2.prems" have n: "1 < n" "n \<le> 4" and len: "n - 1 \<le> length s"
      and valid: "validUtf8 (of_char c # map of_char (take (n - 1) s))"
      and wf: "wellFormed (drop (n - 1) s)"
      by (auto simp: n_def Let_def split: if_splits)
    have ih: "decodeURIComponent (encodeURIComponent (drop (n - 1) s)) = Inr (drop (n - 1) s)"
      using "2.IH"(2)[of n] False n wf by (simp add: n_def)
    have high: "\<not> isUnescaped c"
      using n by (auto simp: n_def leadingOnes_def intro!: not_unescaped_high split: if_splits)
    have conts: "\<forall>x \<in> set (take (n - 1) s). \<not> isUnescaped x"
      using validUtf8_continuations[OF valid] not_unescaped_high by fastforce
    have "encodeURIComponent (c # s) =
          escapeOctet c @ encodeURIComponent (take (n - 1) s) @
          encodeURIComponent (drop (n - 1) s)"
      using high by (simp add: encodeURIComponent_Cons flip: encodeURIComponent_append)
    moreover have
      "decodeURIComponent (escapeOctet c @ encodeURIComponent (take (n - 1) s) @
         encodeURIComponent (drop (n - 1) s)) = Inr (c # take (n - 1) s @ drop (n - 1) s)"
      using decode_escaped_seq[OF n_def[symmetric] n _ valid conts,
          of "encodeURIComponent (drop (n - 1) s)"] len ih
      by simp
    ultimately show ?thesis by simp
  qed
qed

section \<open>Properties of the storage and of the keys\<close>

lemma getItem_removeItem [simp]:
  "getItem (removeItem k st) k' = (if k' = k then None else getItem st k')"
  by (simp add: getItem_def removeItem_def delete_conv')

lemma getItem_setItem [simp]:
  "getItem (setItem k v st) k' = (if k' = k then Some v else getItem st k')"
  by (simp add: getItem_def setItem_def update_conv')

lemma getItem_fold_removeItem:
  "getItem (fold removeItem ks st) k = (if k \<in> set ks then None else getItem st k)"
  by (induction ks arbitrary: st) auto

lemma getItem_setItems:
  "getItem (setItems items ttl st) k =
   (case map_of (rev items) k of Some v \<Rightarrow> Some v | None \<Rightarrow> getItem st k)"
  unfolding setItems_def
proof (induction items arbitrary: st)
  case Nil
  then show ?case by simp
next
  case (Cons x xs)
  show ?case
    by (cases "map_of (rev xs) k") (simp_all add: Cons.IH map_add_def)
qed

lemma map_of_rev_first:
  "k \<notin> fst ` set xs \<Longrightarrow> map_of (rev ((k, v) # xs)) k = Some v"
proof -
  assume "k \<notin> fst ` set xs"
  then have "map_of (rev xs) k = None"
    by (simp add: map_of_eq_None_iff)
  then show ?thesis
    by (simp add: map_add_def)
qed

lemma valueKey_neq_indexKey: "valueKey a t k tk \<noteq> indexKey tb tk' t' k'"
  by (simp add: valueKey_def indexKey_def VALUE_AUTO_PREFIX_def VALUE_NON_AUTO_PREFIX_def
      INDEX_PREFIX_def)

lemma valueKey_neq_tagMapKey: "valueKey a t k tk \<noteq> tagMapKey k'"
  by (simp add: valueKey_def tagMapKey_def VALUE_AUTO_PREFIX_def VALUE_NON_AUTO_PREFIX_def
      TAG_MAP_PREFIX_def)

lemma putIndexKeys_are_indexKeys:
  "x \<in> set (putIndexKeys a tk ts t k) \<Longrightarrow> \<exists>tb d. x = indexKey tb d t k"
  by (auto simp: putIndexKeys_def split: option.splits if_splits)

lemma putWrites_value:
  "map_of (rev (putWrites a tk ts t k entry e)) (valueKey a t k tk) = Some (Entry entry)"
proof -
  define rest where "rest = tl (putWrites a tk ts t k entry e)"
  have w: "putWrites a tk ts t k entry e = (valueKey a t k tk, Entry entry) # rest"
    by (simp add: rest_def putWrites_def)
  have "fst ` set rest \<subseteq> set (putIndexKeys a tk ts t k) \<union> {tagMapKey k}"
    by (auto simp: rest_def putWrites_def split: option.splits if_splits)
  then have "valueKey a t k tk \<notin> fst ` set rest"
    using valueKey_neq_indexKey valueKey_neq_tagMapKey putIndexKeys_are_indexKeys
    by (metis Un_iff singletonD subsetD)
  then show ?thesis
    unfolding w by (rule map_of_rev_first)
qed

lemma getEntry_put_writes:
  "getEntry (setMany (putWrites a tk ts t k entry e) ttl st) (valueKey a t k tk) = Some entry"
  by (simp add: getEntry_def setMany_def getItem_setItems putWrites_value)

section \<open>Properties of the expiry\<close>

lemma pickConfigWithTtl_spec:
  "pickConfigWithTtl cfg = (case specFirstTtl now cfg of None \<Rightarrow> None | Some t \<Rightarrow> cfg)"
  by (simp add: pickConfigWithTtl_def specFirstTtl_def defined_def split: option.splits)

lemma ttl_chain_spec:
  "(case px c of
      Some p \<Rightarrow> Some (now + p)
    | None \<Rightarrow>
        (case ex c of
           Some e \<Rightarrow> Some (now + e * 1000)
         | None \<Rightarrow>
             (case pxat c of
                Some p \<Rightarrow> Some p
              | None \<Rightarrow>
                  (case exat c of
                     Some e \<Rightarrow> Some (e * 1000)
                   | None \<Rightarrow> Some (now + DEFAULT_TTL_MS))))) =
   Some (case specFirstTtl now (Some c) of Some t \<Rightarrow> t | None \<Rightarrow> now + 1000)"
  by (simp add: specFirstTtl_def DEFAULT_TTL_MS_def split: option.splits)

lemma toExpiresAt_keep:
  "specKeepTtlApplies now config existing \<Longrightarrow> 0 \<le> now \<Longrightarrow>
   toExpiresAt defaultConfig now config existing = existing"
  by (auto simp: toExpiresAt_def specKeepTtlApplies_def split: option.splits)

section \<open>Properties of the helpers\<close>





lemma makeTablesKey_mset: "mset ts1 = mset ts2 \<Longrightarrow> makeTablesKey ts1 = makeTablesKey ts2"
proof -
  assume eq: "mset ts1 = mset ts2"
  then have "mset (map encode ts1) = mset (map encode ts2)" by (metis mset_map)
  then have "sort (map encode ts1) = sort (map encode ts2)"
    by (metis mset_sort properties_for_sort sorted_sort)
  moreover from eq have "ts1 = [] \<longleftrightarrow> ts2 = []"
    by (metis mset_zero_iff)
  ultimately show ?thesis by (simp add: makeTablesKey_def)
qed

lemma parseIndexKey_iff:
  "parseIndexKey key = Some r \<longleftrightarrow>
     (\<exists>tableEnc tablesKey kind keyEnc.
        splitOn CHR '':'' key = [INDEX_PREFIX, tableEnc, tablesKey, kind, keyEnc] \<and>
        tableEnc \<noteq> [] \<and> tablesKey \<noteq> [] \<and> keyEnc \<noteq> [] \<and> (kind = ''q'' \<or> kind = ''t'') \<and>
        r = \<lparr>partTableEnc = tableEnc, partTablesKey = tablesKey,
              partIsTag = (kind = ''t''), partKeyEnc = keyEnc\<rparr>)"
  unfolding parseIndexKey_def INDEX_PREFIX_def
  by (auto split: list.splits if_splits)

lemma sweep_fold_skip:
  "fold (\<lambda>k valueKeys.
             (case parseIndexKey k of
                None \<Rightarrow> valueKeys
              | Some parsed \<Rightarrow>
                  setAdd (valueKey True (partIsTag parsed) (partKeyEnc parsed)
                            (Some (partTablesKey parsed))) valueKeys)) ks acc =
   fold (\<lambda>k valueKeys.
             (case parseIndexKey k of
                None \<Rightarrow> valueKeys
              | Some parsed \<Rightarrow>
                  setAdd (valueKey True (partIsTag parsed) (partKeyEnc parsed)
                            (Some (partTablesKey parsed))) valueKeys))
     (filter (\<lambda>k. parseIndexKey k \<noteq> None) ks) acc"
  by (induction ks arbitrary: acc) auto

section \<open>Properties of the cleanup and of the lookup\<close>

lemma dropTables_fallback:
  "dropTables entry (Some fb) tk =
   Inr (case (case entry of None \<Rightarrow> None | Some x \<Rightarrow> entryTables x) of
          Some ts \<Rightarrow> ts | None \<Rightarrow> fb)"
  by (simp add: dropTables_def split: option.splits)

lemma dropEntry_fallback:
  "dropEntry a isTag keyEnc (if a then Some k else None) entry (Some fb) rm st =
   Inr (fold removeItem
          (putIndexKeys a (if a then Some k else None)
             (case (case entry of None \<Rightarrow> None | Some x \<Rightarrow> entryTables x) of
                Some ts \<Rightarrow> ts | None \<Rightarrow> fb) isTag keyEnc)
          (if isTag \<and> rm = Some True
           then removeItem (tagMapKey keyEnc)
                  (removeItem (valueKey a isTag keyEnc (if a then Some k else None)) st)
           else removeItem (valueKey a isTag keyEnc (if a then Some k else None)) st))"
  by (cases a) (simp_all add: dropEntry_def dropTables_fallback putIndexKeys_def Let_def)


lemma get_query_expired:
  assumes found: "getEntry st (valueKey a False (encode key) (if a then Some (makeTablesKey tables) else None)) = Some entry"
    and a: "a = (case hint of Some h \<Rightarrow> h | None \<Rightarrow> tables \<noteq> [])"
    and expd: "isExpired now entry"
  shows "get now key tables False hint st =
         Inr (None, fold removeItem
            (putIndexKeys a (if a then Some (makeTablesKey tables) else None)
               (case entryTables entry of Some ts \<Rightarrow> ts | None \<Rightarrow> tables) False (encode key))
            (removeItem (valueKey a False (encode key) (if a then Some (makeTablesKey tables) else None)) st))"
  using found expd
    dropEntry_fallback[of a False "encode key" "makeTablesKey tables" "Some entry" tables None st]
  unfolding a by (simp add: get_def Let_def)

lemma get_query_live:
  assumes found: "getEntry st (valueKey a False (encode key) (if a then Some (makeTablesKey tables) else None)) = Some entry"
    and a: "a = (case hint of Some h \<Rightarrow> h | None \<Rightarrow> tables \<noteq> [])"
    and live: "\<not> isExpired now entry"
  shows "get now key tables False hint st = Inr (Some (entryValue entry), st)"
  using found live unfolding a by (simp add: get_def Let_def)

lemma get_tag_expired:
  assumes m: "getText st (tagMapKey (encode key)) = Some m" "m \<noteq> []"
    and found: "getEntry st (valueKey (m \<noteq> ''NAI'') True (encode key) (if m \<noteq> ''NAI'' then Some m else None)) = Some entry"
    and fb: "decodeTablesKey (if m \<noteq> ''NAI'' then Some m else None) = Inr fb"
    and expd: "isExpired now entry"
  shows "get now key tables True hint st =
         Inr (None, fold removeItem
            (putIndexKeys (m \<noteq> ''NAI'') (if m \<noteq> ''NAI'' then Some m else None)
               (case entryTables entry of Some ts \<Rightarrow> ts | None \<Rightarrow> fb) True (encode key))
            (removeItem (tagMapKey (encode key))
              (removeItem (valueKey (m \<noteq> ''NAI'') True (encode key) (if m \<noteq> ''NAI'' then Some m else None)) st)))"
proof -
  have fb': "(if m \<noteq> ''NAI'' then decodeTablesKey (if m \<noteq> ''NAI'' then Some m else None) else Inr []) = Inr fb"
    using fb by (auto simp: decodeTablesKey_def)
  show ?thesis
    using m found expd
      dropEntry_fallback[of "m \<noteq> ''NAI''" True "encode key" m "Some entry" fb "Some True" st]
    by (simp add: get_def Let_def fb')
qed

lemma get_tag_live:
  assumes m: "getText st (tagMapKey (encode key)) = Some m" "m \<noteq> []"
    and found: "getEntry st (valueKey (m \<noteq> ''NAI'') True (encode key) (if m \<noteq> ''NAI'' then Some m else None)) = Some entry"
    and live: "\<not> isExpired now entry"
  shows "get now key tables True hint st = Inr (Some (entryValue entry), st)"
  using m found live by (simp add: get_def Let_def)

section \<open>Properties of the digest\<close>

lemma of_char_hexDigit:
  "d < 16 \<Longrightarrow> (of_char (hexDigit d) :: nat) = (if d < 10 then 48 + d else 55 + d)"
  by (simp add: hexDigit_def)

lemma escapeOctet_no_separator:
  "x \<in> set (escapeOctet c) \<Longrightarrow> x \<noteq> CHR '','' \<and> x \<noteq> CHR '':''"
proof -
  assume x: "x \<in> set (escapeOctet c)"
  have lt: "(of_char c :: nat) div 16 < 16"
    by (simp add: less_mult_imp_div_less)
  have "(of_char x :: nat) \<noteq> 44 \<and> (of_char x :: nat) \<noteq> 58"
    using x lt by (auto simp: escapeOctet_def of_char_hexDigit split: if_splits)
  then show ?thesis by auto
qed

lemma isUnescaped_no_separator:
  "isUnescaped x \<Longrightarrow> x \<noteq> CHR '','' \<and> x \<noteq> CHR '':''"
  by (auto simp: isUnescaped_def Let_def)

lemma encode_no_separator:
  "x \<in> set (encode s) \<Longrightarrow> x \<noteq> CHR '','' \<and> x \<noteq> CHR '':''"
  unfolding encode_def encodeURIComponent_def
  using escapeOctet_no_separator isUnescaped_no_separator
  by (fastforce split: if_splits)

lemma encode_empty_iff: "encode s = [] \<longleftrightarrow> s = []"
  by (cases s) (auto simp: encode_def encodeURIComponent_Cons encodeURIComponent_Nil escapeOctet_def)

lemma splitOn_no_sep: "sep \<notin> set s \<Longrightarrow> splitOn sep s = [s]"
  by (induction s) auto

lemma splitOn_append_sep:
  "sep \<notin> set a \<Longrightarrow> splitOn sep (a @ sep # b) = a # splitOn sep b"
  by (induction a) (auto split: list.splits)

lemma splitOn_joinWith:
  "xs \<noteq> [] \<Longrightarrow> \<forall>x \<in> set xs. sep \<notin> set x \<Longrightarrow> splitOn sep (joinWith sep xs) = xs"
proof (induction sep xs rule: joinWith.induct)
  case (1 sep)
  then show ?case by simp
next
  case (2 sep x)
  then show ?case by (simp add: splitOn_no_sep)
next
  case (3 sep x y ys)
  then show ?case by (simp add: splitOn_append_sep)
qed

lemma mapDecode_encoded:
  "\<forall>t \<in> set ts. wellFormed t \<Longrightarrow> mapDecode (map encode ts) = Inr ts"
  by (induction ts) (simp_all add: encode_def decode_encodeURIComponent)


lemma map_insort_key: "map f (insort_key f x xs) = insort (f x) (map f xs)"
  by (induction xs) auto

lemma map_sort_key: "map f (sort_key f xs) = sort (map f xs)"
  by (induction xs) (simp_all add: map_insort_key)

lemma decodeTablesKey_Some:
  "decodeTablesKey (Some k) = mapDecode (filter (\<lambda>p. p \<noteq> []) (splitOn CHR '','' k))"
  by (simp add: decodeTablesKey_def)

lemma filter_encoded:
  "filter (\<lambda>p. p \<noteq> []) (map encode zs) = map encode (filter (\<lambda>t. t \<noteq> []) zs)"
  by (induction zs) (simp_all add: encode_empty_iff)

lemma decodeTablesKey_makeTablesKey:
  assumes wf: "\<forall>t \<in> set ts. wellFormed t"
  shows "\<exists>fb. decodeTablesKey (Some (makeTablesKey ts)) = Inr fb \<and> set fb = set ts - {[]}"
proof (cases "ts = []")
  case True
  then show ?thesis by (simp add: makeTablesKey_def decodeTablesKey_def)
next
  case False
  define zs where "zs = sort_key encode ts"
  have xs: "sort (map encode ts) = map encode zs"
    by (simp add: zs_def map_sort_key)
  have ne: "map encode zs \<noteq> []"
    using False unfolding zs_def by (metis length_0_conv length_sort map_is_Nil_conv)
  have nosep: "\<forall>x \<in> set (map encode zs). CHR '','' \<notin> set x"
    using encode_no_separator by fastforce
  have "decodeTablesKey (Some (makeTablesKey ts)) =
        mapDecode (map encode (filter (\<lambda>t. t \<noteq> []) zs))"
    using False
    by (simp add: makeTablesKey_def xs decodeTablesKey_Some splitOn_joinWith[OF ne nosep]
        filter_encoded)
  also have "\<dots> = Inr (filter (\<lambda>t. t \<noteq> []) zs)"
    using wf by (intro mapDecode_encoded) (simp add: zs_def)
  finally show ?thesis
    by (auto simp: zs_def)
qed

text \<open>
  Tag invalidation removes the index record of every table of the digest: a tagged entry
  on \<^verbatim>\<open>users\<close> and \<^verbatim>\<open>posts\<close>, then a mutation of its tag, leaves nothing behind.
\<close>

lemma invalidateTag_removes_every_index_record:
  "put None 0 ''tagged'' (1::nat) [''users'', ''posts''] True
     (Some \<lparr>ex = Some 60, px = None, exat = None, pxat = None, keepTtl = None\<rparr>) [] =
     Inr [(''__CT__:posts,users:t:tagged'',
           Entry \<lparr>entryValue = 1, expiresAt = Some 60000,
                  entryTables = Some [''users'', ''posts'']\<rparr>),
          (''__CTS__:users:posts,users:t:tagged'', Number 60000),
          (''__CTS__:posts:posts,users:t:tagged'', Number 60000),
          (''__tagsMap__:tagged'', Text ''posts,users'')] \<and>
   onMutate \<lparr>mutationTags = Some (One ''tagged''), mutationTables = None\<rparr>
     [(''__CT__:posts,users:t:tagged'',
       Entry \<lparr>entryValue = 1::nat, expiresAt = Some 60000,
              entryTables = Some [''users'', ''posts'']\<rparr>),
      (''__CTS__:users:posts,users:t:tagged'', Number 60000),
      (''__CTS__:posts:posts,users:t:tagged'', Number 60000),
      (''__tagsMap__:tagged'', Text ''posts,users'')] = Inr []"
  by code_simp

section \<open>Properties of the invalidation and of the stored tag map\<close>









lemma putWrites_tagMap:
  "map_of (rev (putWrites a tk ts True k entry e)) (tagMapKey k) =
   Some (Text (case tk of
                 None \<Rightarrow> ''NAI''
               | Some d \<Rightarrow> if a \<and> d \<noteq> [] then d else ''NAI''))"
  by (simp add: putWrites_def split: option.splits)

lemma getText_put_writes:
  "getText (setMany (putWrites a tk ts True k entry e) ttl st) (tagMapKey k) =
   Some (case tk of None \<Rightarrow> ''NAI'' | Some d \<Rightarrow> if a \<and> d \<noteq> [] then d else ''NAI'')"
  by (simp add: getText_def setMany_def getItem_setItems putWrites_tagMap)

section \<open>The claims\<close>

text \<open>
  Claim C9. For every string \<open>s\<close> used as a table name, tag or fingerprint, decoding the
  encoded form gives back \<open>s\<close>. The strings are those of the model: the UTF-8 forms of
  sequences of code points (\<^const>\<open>wellFormed\<close>). The encoder is \<^const>\<open>encode\<close>; the
  decoder is \<^verbatim>\<open>decodeURIComponent\<close>, which is what \<^verbatim>\<open>decodeTablesKey\<close> applies to a
  token, and it returns normally (\<^term>\<open>Inr s\<close>), without a \<^verbatim>\<open>URIError\<close>.
\<close>

theorem codec_round_trip:
  "wellFormed s \<Longrightarrow> decodeURIComponent (encode s) = Inr s"
  by (simp add: encode_def decode_encodeURIComponent)

theorem codec_round_trip_witness:
  "wellFormed [CHR ''u'', CHR 0xC3, CHR 0xA9, CHR '':'', CHR ''%''] \<and>
   decodeURIComponent (encode [CHR ''u'', CHR 0xC3, CHR 0xA9, CHR '':'', CHR ''%'']) =
   Inr [CHR ''u'', CHR 0xC3, CHR 0xA9, CHR '':'', CHR ''%'']"
proof -
  have wf: "wellFormed [CHR ''u'', CHR 0xC3, CHR 0xA9, CHR '':'', CHR ''%'']"
    by code_simp
  from codec_round_trip[OF wf] wf show ?thesis
    by (rule conjI[rotated])
qed

text \<open>
  Claim C5. For every store with \<^verbatim>\<open>keepTtl\<close> set where an existing entry has an
  \<^verbatim>\<open>expiresAt\<close> strictly in the future of \<open>now\<close>, the resolved expiry equals that existing
  \<^verbatim>\<open>expiresAt\<close> unchanged, and every other TTL field of the request config is ignored.
  The request \<open>c\<close> and the default configuration are arbitrary but for \<^verbatim>\<open>keepTtl\<close>: the
  resolved expiry is the existing one whatever their TTL fields hold, and \<^const>\<open>put\<close>
  stores the new response with the old expiry under the same key. The clock is at or
  after the epoch (\<open>0 \<le> now\<close>), as \<^verbatim>\<open>Date.now()\<close> is.
\<close>

theorem put_keepTtl:
  assumes keep: "keepTtl c = Some True"
    and old: "getEntry st (valueKey (tables \<noteq> []) isTag (encode key)
                (if tables \<noteq> [] then Some (makeTablesKey tables) else None)) = Some old"
    and e: "expiresAt old = Some e" and future: "now < e" and clock: "0 \<le> now"
  shows "toExpiresAt defaultConfig now (Some c) (Some e) = Some e \<and>
         (\<exists>st'. put defaultConfig now key response tables isTag (Some c) st = Inr st' \<and>
            getEntry st' (valueKey (tables \<noteq> []) isTag (encode key)
                (if tables \<noteq> [] then Some (makeTablesKey tables) else None)) =
            Some \<lparr>entryValue = response, expiresAt = Some e,
                  entryTables = (if tables \<noteq> [] then Some tables else None)\<rparr>)"
proof -
  have applies: "specKeepTtlApplies now (Some c) (Some e)"
    using keep future by (simp add: specKeepTtlApplies_def)
  have r: "toExpiresAt defaultConfig now (Some c) (Some e) = Some e"
    using toExpiresAt_keep[OF applies clock] .
  have "put defaultConfig now key response tables isTag (Some c) st =
        Inr (setMany
               (putWrites (tables \<noteq> [])
                  (if tables \<noteq> [] then Some (makeTablesKey tables) else None)
                  tables isTag (encode key)
                  \<lparr>entryValue = response, expiresAt = Some e,
                    entryTables = (if tables \<noteq> [] then Some tables else None)\<rparr> (Some e))
               (Some (ttlSecondsOf now e)) st)"
    using keep old e r future by (simp add: put_def putExpiresAt_def Let_def)
  with r show ?thesis
    by (simp add: getEntry_put_writes)
qed

text \<open>
  The scenario of the test "reuses existing TTL when keepTtl is true": a store at time 0
  with a TTL of 50 ms, then a store at time 5 with \<^verbatim>\<open>keepTtl\<close> and a TTL of 10 ms.
\<close>

theorem put_keepTtl_witness:
  "\<exists>st0 st1.
     put None 0 ''k1'' (1::nat) [''users''] False
        (Some \<lparr>ex = None, px = Some 50, exat = None, pxat = None, keepTtl = None\<rparr>) [] =
       Inr st0 \<and>
     put None 5 ''k1'' 2 [''users''] False
        (Some \<lparr>ex = None, px = Some 10, exat = None, pxat = None, keepTtl = Some True\<rparr>) st0 =
       Inr st1 \<and>
     getEntry st1 ''__CT__:users:q:k1'' =
       Some \<lparr>entryValue = 2, expiresAt = Some 50, entryTables = Some [''users'']\<rparr>"
proof -
  let ?st0 = "[(''__CT__:users:q:k1'',
                Entry \<lparr>entryValue = 1::nat, expiresAt = Some 50, entryTables = Some [''users'']\<rparr>),
               (''__CTS__:users:users:q:k1'', Number 50)]"
  let ?c = "\<lparr>ex = None, px = Some 10, exat = None, pxat = None, keepTtl = Some True\<rparr>"
  have vk: "valueKey ([''users''] \<noteq> []) False (encode ''k1'')
              (if [''users''] \<noteq> [] then Some (makeTablesKey [''users'']) else None) =
            ''__CT__:users:q:k1''"
    by code_simp
  have old: "getEntry ?st0 (valueKey ([''users''] \<noteq> []) False (encode ''k1'')
              (if [''users''] \<noteq> [] then Some (makeTablesKey [''users'']) else None)) =
             Some \<lparr>entryValue = 1, expiresAt = Some 50, entryTables = Some [''users'']\<rparr>"
    unfolding vk by (simp add: getEntry_def getItem_def)
  have first: "put None 0 ''k1'' (1::nat) [''users''] False
        (Some \<lparr>ex = None, px = Some 50, exat = None, pxat = None, keepTtl = None\<rparr>) [] =
        Inr ?st0"
    by code_simp
  from put_keepTtl[of ?c ?st0 "[''users'']" False "''k1''" _ 50 5 None 2, OF _ old]
  obtain st1 where "put None 5 ''k1'' 2 [''users''] False (Some ?c) ?st0 = Inr st1"
    and "getEntry st1 ''__CT__:users:q:k1'' =
       Some \<lparr>entryValue = 2, expiresAt = Some 50, entryTables = Some [''users'']\<rparr>"
    unfolding vk by auto
  with first show ?thesis by blast
qed

text \<open>
  Claim C6. For every expiry resolution without an applicable \<^verbatim>\<open>keepTtl\<close>, the resolved
  expiry is taken from the first TTL field present in the request config in the priority
  order relative milliseconds (\<^verbatim>\<open>px\<close>), relative seconds (\<^verbatim>\<open>ex\<close>), absolute
  milliseconds (\<^verbatim>\<open>pxat\<close>), absolute seconds (\<^verbatim>\<open>exat\<close>), later fields being ignored;
  if the request config has none of the four fields, the default config is consulted with
  the same priority; if neither has any, the expiry is \<open>now + 1000\<close>. That rule is
  \<^const>\<open>specResolveExpiry\<close>, written from the words of the spec, and the source's
  \<^const>\<open>toExpiresAt\<close> computes it.
\<close>

theorem toExpiresAt_priority:
  assumes "\<not> specKeepTtlApplies now config existing"
  shows "toExpiresAt defaultConfig now config existing =
         Some (specResolveExpiry now config defaultConfig)"
proof -
  have nokeep: "\<not> ((case config of None \<Rightarrow> False | Some c \<Rightarrow> keepTtl c = Some True) \<and>
         (case existing of None \<Rightarrow> False | Some e \<Rightarrow> e \<noteq> 0 \<and> e > now))"
    using assms by (auto simp: specKeepTtlApplies_def split: option.splits)
  show ?thesis
  proof (cases "specFirstTtl now config")
    case None
    then have pc: "pickConfigWithTtl config = None"
      by (simp add: pickConfigWithTtl_spec[of _ now])
    show ?thesis
    proof (cases "specFirstTtl now defaultConfig")
      case None2: None
      then have "pickConfigWithTtl defaultConfig = None"
        by (simp add: pickConfigWithTtl_spec[of _ now])
      with pc None None2 nokeep show ?thesis
        by (auto simp: toExpiresAt_def specResolveExpiry_def DEFAULT_TTL_MS_def)
    next
      case (Some t)
      then obtain d where d: "defaultConfig = Some d"
        by (cases defaultConfig) (simp_all add: specFirstTtl_def)
      with Some have "pickConfigWithTtl defaultConfig = Some d"
        by (simp add: pickConfigWithTtl_spec[of _ now])
      with pc None Some nokeep d show ?thesis
        by (auto simp: toExpiresAt_def specResolveExpiry_def ttl_chain_spec)
    qed
  next
    case (Some t)
    then obtain c where c: "config = Some c"
      by (cases config) (simp_all add: specFirstTtl_def)
    with Some have "pickConfigWithTtl config = Some c"
      by (simp add: pickConfigWithTtl_spec[of _ now])
    with Some nokeep c show ?thesis
      by (auto simp: toExpiresAt_def specResolveExpiry_def ttl_chain_spec)
  qed
qed

text \<open>
  A request that sets all four fields, over a default of 60 seconds, at time 100: the
  relative milliseconds win.
\<close>

theorem toExpiresAt_priority_witness:
  "\<not> specKeepTtlApplies 100
       (Some \<lparr>ex = Some 7, px = Some 5, exat = Some 9, pxat = Some 11, keepTtl = None\<rparr>) None \<and>
   toExpiresAt (Some \<lparr>ex = Some 60, px = None, exat = None, pxat = None, keepTtl = None\<rparr>) 100
     (Some \<lparr>ex = Some 7, px = Some 5, exat = Some 9, pxat = Some 11, keepTtl = None\<rparr>) None =
   Some 105"
  using toExpiresAt_priority[of 100
      "Some \<lparr>ex = Some 7, px = Some 5, exat = Some 9, pxat = Some 11, keepTtl = None\<rparr>" None
      "Some \<lparr>ex = Some 60, px = None, exat = None, pxat = None, keepTtl = None\<rparr>"]
  by (simp add: specKeepTtlApplies_def specResolveExpiry_def specFirstTtl_def)

text \<open>
  Claim C10. For every tag lookup, if no tag-map record exists for the tag, \<^const>\<open>get\<close>
  returns absent at once, without reading the entry store: whatever else the storage
  holds, the result is \<open>None\<close> and the storage is unchanged. So a tag entry whose tag-map
  record has been removed cannot be reached through \<^const>\<open>get\<close>, even if its value record
  is still in the storage.
\<close>

theorem get_tag_without_map:
  "getItem st (tagMapKey (encode key)) = None \<Longrightarrow>
   get now key tables True isAutoInvalidate st = Inr (None, st)"
  by (simp add: get_def getText_def)

text \<open>
  A storage that still holds the value record and the index record of the tag
  \<^verbatim>\<open>tagged\<close>, with an expiry far in the future, but no tag-map record.
\<close>

theorem get_tag_without_map_witness:
  "getItem [(''__CT__:users:t:tagged'',
             Entry \<lparr>entryValue = 1::nat, expiresAt = Some 60000,
                    entryTables = Some [''users'']\<rparr>),
            (''__CTS__:users:users:t:tagged'', Number 60000)]
     (tagMapKey (encode ''tagged'')) = None \<and>
   getEntry [(''__CT__:users:t:tagged'',
             Entry \<lparr>entryValue = 1::nat, expiresAt = Some 60000,
                    entryTables = Some [''users'']\<rparr>),
            (''__CTS__:users:users:t:tagged'', Number 60000)]
     (valueKey True True (encode ''tagged'') (Some (makeTablesKey [''users'']))) =
     Some \<lparr>entryValue = 1, expiresAt = Some 60000, entryTables = Some [''users'']\<rparr> \<and>
   get 5 ''tagged'' [''users''] True (Some True)
     [(''__CT__:users:t:tagged'',
       Entry \<lparr>entryValue = 1::nat, expiresAt = Some 60000, entryTables = Some [''users'']\<rparr>),
      (''__CTS__:users:users:t:tagged'', Number 60000)] =
   Inr (None,
     [(''__CT__:users:t:tagged'',
       Entry \<lparr>entryValue = 1::nat, expiresAt = Some 60000, entryTables = Some [''users'']\<rparr>),
      (''__CTS__:users:users:t:tagged'', Number 60000)])"
proof -
  let ?st = "[(''__CT__:users:t:tagged'',
       Entry \<lparr>entryValue = 1::nat, expiresAt = Some 60000, entryTables = Some [''users'']\<rparr>),
      (''__CTS__:users:users:t:tagged'', Number 60000)]"
  have absent: "getItem ?st (tagMapKey (encode ''tagged'')) = None"
    by code_simp
  have present:
    "getEntry ?st (valueKey True True (encode ''tagged'') (Some (makeTablesKey [''users'']))) =
     Some \<lparr>entryValue = 1, expiresAt = Some 60000, entryTables = Some [''users'']\<rparr>"
    by code_simp
  from get_tag_without_map[OF absent] absent present show ?thesis
    by simp
qed

text \<open>
  Claim C8. For every string key, the index-record parser accepts it only when it splits
  at \<^verbatim>\<open>:\<close> into exactly 5 parts with the fixed index namespace as first part, a kind part
  that is \<^verbatim>\<open>q\<close> or \<^verbatim>\<open>t\<close>, and non-empty table, digest and fingerprint parts, and then
  the result holds exactly those parts; any other key yields \<open>None\<close>. During a
  table-invalidation sweep a key that fails the parse is skipped: the value keys the
  sweep collects are those of the keys that parse. The sweep (\<^const>\<open>invalidateTables\<close>)
  returns a storage and has no error result.
\<close>

theorem parseIndexKey_strict:
  "(parseIndexKey key = Some r \<longleftrightarrow>
     (\<exists>tableEnc tablesKey kind keyEnc.
        splitOn CHR '':'' key = [INDEX_PREFIX, tableEnc, tablesKey, kind, keyEnc] \<and>
        tableEnc \<noteq> [] \<and> tablesKey \<noteq> [] \<and> keyEnc \<noteq> [] \<and> (kind = ''q'' \<or> kind = ''t'') \<and>
        r = \<lparr>partTableEnc = tableEnc, partTablesKey = tablesKey,
              partIsTag = (kind = ''t''), partKeyEnc = keyEnc\<rparr>)) \<and>
   sweepValueKeys indexKeys =
     sweepValueKeys (filter (\<lambda>k. parseIndexKey k \<noteq> None) indexKeys)"
  using parseIndexKey_iff[of key r] sweep_fold_skip[of indexKeys "[]"]
  by (simp add: sweepValueKeys_def)

theorem parseIndexKey_strict_witness:
  "parseIndexKey ''__CTS__:users:posts,users:q:k1'' =
     Some \<lparr>partTableEnc = ''users'', partTablesKey = ''posts,users'', partIsTag = False,
           partKeyEnc = ''k1''\<rparr> \<and>
   parseIndexKey ''__CTS__:users:q:k1'' = None \<and>
   sweepValueKeys [''__CTS__:users:q:k1'', ''__CTS__:users:posts,users:q:k1''] =
     sweepValueKeys [''__CTS__:users:posts,users:q:k1'']"
proof -
  have bad: "parseIndexKey ''__CTS__:users:q:k1'' = None"
    by code_simp
  have good: "parseIndexKey ''__CTS__:users:posts,users:q:k1'' \<noteq> None"
    by code_simp
  have split: "splitOn CHR '':'' ''__CTS__:users:posts,users:q:k1'' =
      [INDEX_PREFIX, ''users'', ''posts,users'', ''q'', ''k1'']"
    by code_simp
  from parseIndexKey_strict[of "''__CTS__:users:posts,users:q:k1''"
      "\<lparr>partTableEnc = ''users'', partTablesKey = ''posts,users'', partIsTag = False,
           partKeyEnc = ''k1''\<rparr>"
      "[''__CTS__:users:q:k1'', ''__CTS__:users:posts,users:q:k1'']"]
  show ?thesis
    using bad good split by simp
qed




text \<open>
  Claim C3, as the spec states it: two table lists that denote the same set of names,
  whatever their order and their duplicates, get the same digest, the facade removing
  duplicates before digesting. Neither \<^const>\<open>put\<close> nor \<^const>\<open>get\<close> removes duplicates:
  the lists \<^verbatim>\<open>["a", "a"]\<close> and \<^verbatim>\<open>["a"]\<close> denote the same set and get the digests
  \<^verbatim>\<open>a,a\<close> and \<^verbatim>\<open>a\<close>, and a lookup with the second misses what was stored with the
  first.
\<close>

theorem digest_keeps_duplicates:
  "set [''a'', ''a''] = set [''a''] \<and>
   makeTablesKey [''a'', ''a''] = ''a,a'' \<and> makeTablesKey [''a''] = ''a'' \<and>
   put None 0 ''k'' (1::nat) [''a'', ''a''] False None [] =
     Inr [(''__CT__:a,a:q:k'',
           Entry \<lparr>entryValue = 1, expiresAt = Some 1000, entryTables = Some [''a'', ''a'']\<rparr>),
          (''__CTS__:a:a,a:q:k'', Number 1000)] \<and>
   get 1 ''k'' [''a''] False None
     [(''__CT__:a,a:q:k'',
       Entry \<lparr>entryValue = 1::nat, expiresAt = Some 1000, entryTables = Some [''a'', ''a'']\<rparr>),
      (''__CTS__:a:a,a:q:k'', Number 1000)] =
   Inr (None,
     [(''__CT__:a,a:q:k'',
       Entry \<lparr>entryValue = 1::nat, expiresAt = Some 1000, entryTables = Some [''a'', ''a'']\<rparr>),
      (''__CTS__:a:a,a:q:k'', Number 1000)])"
  by code_simp

text \<open>
  Claim C3, amended. For every fingerprint and every two table lists with the same names
  in the same numbers (one a permutation of the other), store and lookup derive the same
  digest, and a lookup with the one list, before the expiry, returns what a store with the
  other list persisted. On the query path the auto-invalidate hint of the lookup is absent
  or agrees with its list being non-empty. On the tag path the lookup takes the digest
  from the tag-map record, where the empty digest and the digest \<^verbatim>\<open>NAI\<close> read as "no
  automatic invalidation": there the list is empty, or its digest is neither of the two.
\<close>

theorem digest_permutation:
  assumes perm: "mset ts1 = mset ts2"
    and expiry: "putExpiresAt defaultConfig now config
                   (valueKey (ts1 \<noteq> []) isTag (encode key)
                      (if ts1 \<noteq> [] then Some (makeTablesKey ts1) else None)) st = Some e"
    and persisted: "now < e"
    and live: "now' < e"
    and slot: "if isTag
               then ts1 = [] \<or> (makeTablesKey ts1 \<noteq> [] \<and> makeTablesKey ts1 \<noteq> ''NAI'')
               else hint = None \<or> hint = Some (ts2 \<noteq> [])"
  shows "makeTablesKey ts1 = makeTablesKey ts2 \<and>
         (\<exists>st1. put defaultConfig now key response ts1 isTag config st = Inr st1 \<and>
            get now' key ts2 isTag hint st1 = Inr (Some response, st1))"
proof -
  define a where "a = (ts1 \<noteq> [])"
  define tk where "tk = (if a then Some (makeTablesKey ts1) else None)"
  define entry where
    "entry = \<lparr>entryValue = response, expiresAt = Some e,
              entryTables = (if a then Some ts1 else None)\<rparr>"
  define st1 where
    "st1 = setMany (putWrites a tk ts1 isTag (encode key) entry (Some e))
             (Some (ttlSecondsOf now e)) st"
  have k: "makeTablesKey ts1 = makeTablesKey ts2"
    using perm by (rule makeTablesKey_mset)
  have ne: "ts1 = [] \<longleftrightarrow> ts2 = []"
    using perm by (metis mset_zero_iff)
  have stored: "put defaultConfig now key response ts1 isTag config st = Inr st1"
    using expiry persisted
    by (simp add: put_def Let_def st1_def entry_def tk_def a_def)
  have found: "getEntry st1 (valueKey a isTag (encode key) tk) = Some entry"
    by (simp add: st1_def getEntry_put_writes)
  have notexp: "\<not> isExpired now' entry"
    using live by (simp add: isExpired_def entry_def)
  have "get now' key ts2 isTag hint st1 = Inr (Some response, st1)"
  proof (cases isTag)
    case True
    then have it: "isTag = True" by simp
    define m where "m = (case tk of None \<Rightarrow> ''NAI'' | Some d \<Rightarrow> if a \<and> d \<noteq> [] then d else ''NAI'')"
    have mv: "getText st1 (tagMapKey (encode key)) = Some m"
      unfolding st1_def it m_def by (rule getText_put_writes)
    from slot True have s: "ts1 = [] \<or> (makeTablesKey ts1 \<noteq> [] \<and> makeTablesKey ts1 \<noteq> ''NAI'')"
      by simp
    have mne: "m \<noteq> []" and auto: "(m \<noteq> ''NAI'') = a"
      and tk': "(if m \<noteq> ''NAI'' then Some m else None) = tk"
      using s by (auto simp: m_def tk_def a_def)
    from found have found':
      "getEntry st1 (valueKey (m \<noteq> ''NAI'') True (encode key)
         (if m \<noteq> ''NAI'' then Some m else None)) = Some entry"
      using s unfolding it by (auto simp: m_def tk_def a_def)
    from get_tag_live[OF mv mne found' notexp, of ts2 hint] show ?thesis
      by (simp add: it entry_def)
  next
    case False
    then have it: "isTag = False" by simp
    from slot False have h: "hint = None \<or> hint = Some (ts2 \<noteq> [])" by simp
    have a2: "a = (case hint of Some h \<Rightarrow> h | None \<Rightarrow> ts2 \<noteq> [])"
      using h ne by (auto simp: a_def)
    from found have found':
      "getEntry st1 (valueKey a False (encode key)
         (if a then Some (makeTablesKey ts2) else None)) = Some entry"
      unfolding it tk_def k by simp
    from get_query_live[OF found' a2 notexp] show ?thesis
      by (simp add: it entry_def)
  qed
  with k stored show ?thesis by simp
qed

text \<open>
  The scenario of the test "uses sorted tablesKey so table order does not matter".
\<close>

theorem digest_permutation_witness:
  "mset [''users'', ''posts''] = mset [''posts'', ''users''] \<and>
   putExpiresAt None 0 None
     (valueKey ([''users'', ''posts''] \<noteq> []) False (encode ''k1'')
        (if [''users'', ''posts''] \<noteq> [] then Some (makeTablesKey [''users'', ''posts''])
         else None)) ([] :: nat storage) = Some 1000 \<and>
   makeTablesKey [''users'', ''posts''] = makeTablesKey [''posts'', ''users''] \<and>
   put None 0 ''k1'' (1::nat) [''users'', ''posts''] False None [] =
     Inr [(''__CT__:posts,users:q:k1'',
           Entry \<lparr>entryValue = 1, expiresAt = Some 1000,
                  entryTables = Some [''users'', ''posts'']\<rparr>),
          (''__CTS__:users:posts,users:q:k1'', Number 1000),
          (''__CTS__:posts:posts,users:q:k1'', Number 1000)] \<and>
   get 1 ''k1'' [''posts'', ''users''] False None
     [(''__CT__:posts,users:q:k1'',
       Entry \<lparr>entryValue = 1::nat, expiresAt = Some 1000,
              entryTables = Some [''users'', ''posts'']\<rparr>),
      (''__CTS__:users:posts,users:q:k1'', Number 1000),
      (''__CTS__:posts:posts,users:q:k1'', Number 1000)] =
   Inr (Some 1,
     [(''__CT__:posts,users:q:k1'',
       Entry \<lparr>entryValue = 1::nat, expiresAt = Some 1000,
              entryTables = Some [''users'', ''posts'']\<rparr>),
      (''__CTS__:users:posts,users:q:k1'', Number 1000),
      (''__CTS__:posts:posts,users:q:k1'', Number 1000)])"
proof -
  let ?st = "[(''__CT__:posts,users:q:k1'',
       Entry \<lparr>entryValue = 1::nat, expiresAt = Some 1000,
              entryTables = Some [''users'', ''posts'']\<rparr>),
      (''__CTS__:users:posts,users:q:k1'', Number 1000),
      (''__CTS__:posts:posts,users:q:k1'', Number 1000)]"
  have m: "mset [''users'', ''posts''] = mset [''posts'', ''users'']"
    by (simp add: add_mset_commute)
  have e: "putExpiresAt None 0 None
     (valueKey ([''users'', ''posts''] \<noteq> []) False (encode ''k1'')
        (if [''users'', ''posts''] \<noteq> [] then Some (makeTablesKey [''users'', ''posts''])
         else None)) ([] :: nat storage) = Some 1000"
    by (simp add: putExpiresAt_def toExpiresAt_def pickConfigWithTtl_def DEFAULT_TTL_MS_def)
  have persisted: "(0::int) < 1000" and live: "(1::int) < 1000"
    by simp_all
  have slot: "if False
        then [''users'', ''posts''] = [] \<or>
             (makeTablesKey [''users'', ''posts''] \<noteq> [] \<and>
              makeTablesKey [''users'', ''posts''] \<noteq> ''NAI'')
        else None = None \<or> None = Some ([''posts'', ''users''] \<noteq> [])"
    by simp
  have stored: "put None 0 ''k1'' (1::nat) [''users'', ''posts''] False None [] = Inr ?st"
    by code_simp
  from digest_permutation[OF m e persisted live slot, of 1] stored
  have "makeTablesKey [''users'', ''posts''] = makeTablesKey [''posts'', ''users'']"
    and "get 1 ''k1'' [''posts'', ''users''] False None ?st = Inr (Some 1, ?st)"
    by simp_all
  with m e stored show ?thesis by simp
qed

text \<open>
  Claim C7. For every lookup that finds an entry whose \<^verbatim>\<open>expiresAt\<close> is present and
  \<open>\<le> now\<close>, the lookup returns absent, not the stored value, and deletes the entry
  together with its index records; an entry with absent \<^verbatim>\<open>expiresAt\<close> is never treated
  as expired, and the lookup returns its value and leaves the storage as it is.

  The hypotheses state what "finds an entry" means on each path. On the query path the
  slot is that of the tables and the hint. On the tag path the tag-map record \<open>m\<close> gives
  the slot, and \<open>m\<close> decodes (\<^term>\<open>decodeTablesKey tk = Inr fb\<close>), as every digest that
  \<^const>\<open>put\<close> writes does (lemma \<open>decodeTablesKey_makeTablesKey\<close>): the source decodes it
  before the cleanup, and a record that does not decode makes the lookup fail with
  \<^verbatim>\<open>URIError\<close>. The index records of the
  entry are those a store writes for it (\<^const>\<open>putIndexKeys\<close>): one per dependent table
  recorded in the entry, under the digest of its slot. On the tag path the tag-map record
  is deleted as well.
\<close>

theorem get_expired:
  assumes lookup:
    "if isTag
     then getText st (tagMapKey (encode key)) = Some m \<and> m \<noteq> [] \<and> a = (m \<noteq> ''NAI'') \<and>
          tk = (if a then Some m else None) \<and> decodeTablesKey tk = Inr fb
     else a = (case hint of Some h \<Rightarrow> h | None \<Rightarrow> tables \<noteq> []) \<and>
          tk = (if a then Some (makeTablesKey tables) else None) \<and> fb = tables"
    and found: "getEntry st (valueKey a isTag (encode key) tk) = Some entry"
  shows "(expiresAt entry = Some e \<and> e \<le> now \<longrightarrow>
          (\<exists>st'. get now key tables isTag hint st = Inr (None, st') \<and>
             getItem st' (valueKey a isTag (encode key) tk) = None \<and>
             (\<forall>k \<in> set (putIndexKeys a tk
                          (case entryTables entry of Some ts \<Rightarrow> ts | None \<Rightarrow> fb)
                          isTag (encode key)). getItem st' k = None) \<and>
             (isTag \<longrightarrow> getItem st' (tagMapKey (encode key)) = None))) \<and>
         (expiresAt entry = None \<longrightarrow>
          \<not> isExpired now entry \<and>
          get now key tables isTag hint st = Inr (Some (entryValue entry), st))"
proof -
  define ts where "ts = (case entryTables entry of Some ts \<Rightarrow> ts | None \<Rightarrow> fb)"
  define st' where
    "st' = fold removeItem (putIndexKeys a tk ts isTag (encode key))
             (if isTag
              then removeItem (tagMapKey (encode key))
                     (removeItem (valueKey a isTag (encode key) tk) st)
              else removeItem (valueKey a isTag (encode key) tk) st)"
  have gone: "getItem st' (valueKey a isTag (encode key) tk) = None"
    by (simp add: st'_def getItem_fold_removeItem)
  have index: "\<forall>k \<in> set (putIndexKeys a tk ts isTag (encode key)). getItem st' k = None"
    by (simp add: st'_def getItem_fold_removeItem)
  have tagmap: "isTag \<longrightarrow> getItem st' (tagMapKey (encode key)) = None"
    by (simp add: st'_def getItem_fold_removeItem)
  have res: "get now key tables isTag hint st =
               (if isExpired now entry then Inr (None, st')
                else Inr (Some (entryValue entry), st))"
  proof (cases isTag)
    case True
    then have it: "isTag = True" by simp
    from lookup True have m: "getText st (tagMapKey (encode key)) = Some m" "m \<noteq> []"
      and a: "a = (m \<noteq> ''NAI'')" and tk: "tk = (if m \<noteq> ''NAI'' then Some m else None)"
      and fb: "decodeTablesKey (if m \<noteq> ''NAI'' then Some m else None) = Inr fb"
      by auto
    from found a tk have found':
      "getEntry st (valueKey (m \<noteq> ''NAI'') True (encode key)
         (if m \<noteq> ''NAI'' then Some m else None)) = Some entry"
      unfolding it by simp
    show ?thesis
    proof (cases "isExpired now entry")
      case True
      from get_tag_expired[OF m found' fb True, of tables hint] True show ?thesis
        unfolding st'_def ts_def it a tk by simp
    next
      case False
      from get_tag_live[OF m found' False, of tables hint] False show ?thesis
        unfolding it by simp
    qed
  next
    case False
    then have it: "isTag = False" by simp
    from lookup False have a: "a = (case hint of Some h \<Rightarrow> h | None \<Rightarrow> tables \<noteq> [])"
      and tk: "tk = (if a then Some (makeTablesKey tables) else None)" and fb: "fb = tables"
      by auto
    from found tk have found':
      "getEntry st (valueKey a False (encode key)
         (if a then Some (makeTablesKey tables) else None)) = Some entry"
      unfolding it by simp
    show ?thesis
    proof (cases "isExpired now entry")
      case True
      from get_query_expired[OF found' a True] True show ?thesis
        unfolding st'_def ts_def it tk fb by simp
    next
      case False
      from get_query_live[OF found' a False] False show ?thesis
        unfolding it by simp
    qed
  qed
  have expired: "expiresAt entry = Some e \<and> e \<le> now \<longrightarrow> isExpired now entry"
    by (simp add: isExpired_def)
  have live: "expiresAt entry = None \<longrightarrow> \<not> isExpired now entry"
    by (simp add: isExpired_def)
  from res gone index tagmap expired live show ?thesis
    unfolding ts_def by auto
qed

text \<open>
  A tagged entry on the table \<^verbatim>\<open>users\<close>, stored with an expiry of 1000 and looked up
  at 1500.
\<close>

theorem get_expired_witness:
  "getText [(''__CT__:users:t:tagged'',
             Entry \<lparr>entryValue = 1::nat, expiresAt = Some 1000, entryTables = Some [''users'']\<rparr>),
            (''__CTS__:users:users:t:tagged'', Number 1000),
            (''__tagsMap__:tagged'', Text ''users'')]
     (tagMapKey (encode ''tagged'')) = Some ''users'' \<and>
   decodeTablesKey (Some ''users'') = Inr [''users''] \<and>
   (\<exists>st'. get 1500 ''tagged'' [] True None
        [(''__CT__:users:t:tagged'',
          Entry \<lparr>entryValue = 1::nat, expiresAt = Some 1000, entryTables = Some [''users'']\<rparr>),
         (''__CTS__:users:users:t:tagged'', Number 1000),
         (''__tagsMap__:tagged'', Text ''users'')] = Inr (None, st') \<and>
      getItem st' ''__CT__:users:t:tagged'' = None \<and>
      getItem st' ''__CTS__:users:users:t:tagged'' = None \<and>
      getItem st' ''__tagsMap__:tagged'' = None)"
proof -
  let ?entry = "\<lparr>entryValue = 1::nat, expiresAt = Some 1000, entryTables = Some [''users'']\<rparr>"
  let ?st = "[(''__CT__:users:t:tagged'', Entry ?entry),
            (''__CTS__:users:users:t:tagged'', Number 1000),
            (''__tagsMap__:tagged'', Text ''users'')]"
  have m: "getText ?st (tagMapKey (encode ''tagged'')) = Some ''users''"
    by code_simp
  have d: "decodeTablesKey (Some ''users'') = Inr [''users'']"
    by code_simp
  have vk: "valueKey True True (encode ''tagged'') (Some ''users'') = ''__CT__:users:t:tagged''"
    by code_simp
  have ik: "putIndexKeys True (Some ''users'') [''users''] True (encode ''tagged'') =
            [''__CTS__:users:users:t:tagged'']"
    by code_simp
  have tm: "tagMapKey (encode ''tagged'') = ''__tagsMap__:tagged''"
    by code_simp
  have lookup:
    "if True
     then getText ?st (tagMapKey (encode ''tagged'')) = Some ''users'' \<and> ''users'' \<noteq> [] \<and>
          True = (''users'' \<noteq> ''NAI'') \<and>
          Some ''users'' = (if True then Some ''users'' else None) \<and>
          decodeTablesKey (Some ''users'') = Inr [''users'']
     else True = (case None of Some h \<Rightarrow> h | None \<Rightarrow> [] \<noteq> []) \<and>
          Some ''users'' = (if True then Some (makeTablesKey []) else None) \<and> [''users''] = []"
    using m d by simp
  have found: "getEntry ?st (valueKey True True (encode ''tagged'') (Some ''users'')) = Some ?entry"
    unfolding vk by (simp add: getEntry_def getItem_def)
  from get_expired[OF lookup found, of 1000 1500]
  have "\<exists>st'. get 1500 ''tagged'' [] True None ?st = Inr (None, st') \<and>
      getItem st' ''__CT__:users:t:tagged'' = None \<and>
      getItem st' ''__CTS__:users:users:t:tagged'' = None \<and>
      getItem st' ''__tagsMap__:tagged'' = None"
    by (simp add: vk ik tm)
  with m d show ?thesis by simp
qed

text \<open>
  Claim C4. For every store whose resolved expiry is already \<open>\<le> now\<close> at write time, the
  entry is not persisted at all; the store runs the cleanup of an expired read
  (\<^const>\<open>dropEntry\<close>) instead, which removes any existing entry and the index records for
  that key. After the store the value key and the index keys of the entry are absent, and
  every other key holds what it held before or nothing: nothing is written.
\<close>

theorem put_dead_on_arrival:
  assumes a: "a = (tables \<noteq> [])"
    and tk: "tk = (if a then Some (makeTablesKey tables) else None)"
    and e: "putExpiresAt defaultConfig now config (valueKey a isTag (encode key) tk) st = Some e"
    and dead: "e \<le> now"
  shows "\<exists>st'. put defaultConfig now key response tables isTag config st = Inr st' \<and>
           dropEntry a isTag (encode key) tk None (Some tables) None st = Inr st' \<and>
           getItem st' (valueKey a isTag (encode key) tk) = None \<and>
           (\<forall>k \<in> set (putIndexKeys a tk tables isTag (encode key)). getItem st' k = None) \<and>
           (\<forall>k. getItem st' k = None \<or> getItem st' k = getItem st k)"
proof -
  define st' where
    "st' = fold removeItem (putIndexKeys a tk tables isTag (encode key))
             (removeItem (valueKey a isTag (encode key) tk) st)"
  have d: "dropEntry a isTag (encode key) tk None (Some tables) None st = Inr st'"
    using dropEntry_fallback[of a isTag "encode key" "makeTablesKey tables" None tables None st]
    unfolding st'_def tk by simp
  have p: "put defaultConfig now key response tables isTag config st =
           dropEntry a isTag (encode key) tk None (Some tables) None st"
    using e dead unfolding a tk by (simp add: put_def Let_def)
  have "getItem st' (valueKey a isTag (encode key) tk) = None"
    and "\<forall>k \<in> set (putIndexKeys a tk tables isTag (encode key)). getItem st' k = None"
    and "\<forall>k. getItem st' k = None \<or> getItem st' k = getItem st k"
    by (simp_all add: st'_def getItem_fold_removeItem)
  with p d show ?thesis by simp
qed

text \<open>
  A live entry stored earlier, then a store at time 100 with an absolute expiry of 50.
\<close>

theorem put_dead_on_arrival_witness:
  "getItem [(''__CT__:users:q:k1'',
             Entry \<lparr>entryValue = 1::nat, expiresAt = Some 60000, entryTables = Some [''users'']\<rparr>),
            (''__CTS__:users:users:q:k1'', Number 60000)] ''__CT__:users:q:k1'' =
     Some (Entry \<lparr>entryValue = 1::nat, expiresAt = Some 60000, entryTables = Some [''users'']\<rparr>) \<and>
   (\<exists>st'. put None 100 ''k1'' 2 [''users''] False
        (Some \<lparr>ex = None, px = None, exat = None, pxat = Some 50, keepTtl = None\<rparr>)
        [(''__CT__:users:q:k1'',
          Entry \<lparr>entryValue = 1::nat, expiresAt = Some 60000, entryTables = Some [''users'']\<rparr>),
         (''__CTS__:users:users:q:k1'', Number 60000)] = Inr st' \<and>
      getItem st' ''__CT__:users:q:k1'' = None \<and>
      getItem st' ''__CTS__:users:users:q:k1'' = None)"
proof -
  let ?st = "[(''__CT__:users:q:k1'',
             Entry \<lparr>entryValue = 1::nat, expiresAt = Some 60000, entryTables = Some [''users'']\<rparr>),
            (''__CTS__:users:users:q:k1'', Number 60000)]"
  let ?c = "Some \<lparr>ex = None, px = None, exat = None, pxat = Some 50, keepTtl = None\<rparr>"
  have vk: "valueKey True False (encode ''k1'') (Some (makeTablesKey [''users''])) = ''__CT__:users:q:k1''"
    by code_simp
  have ik: "putIndexKeys True (Some (makeTablesKey [''users''])) [''users''] False (encode ''k1'') =
            [''__CTS__:users:users:q:k1'']"
    by code_simp
  have a: "True = ([''users''] \<noteq> [])" by simp
  have tk: "Some (makeTablesKey [''users'']) = (if True then Some (makeTablesKey [''users'']) else None)"
    by simp
  have e: "putExpiresAt None 100 ?c
             (valueKey True False (encode ''k1'') (Some (makeTablesKey [''users'']))) ?st = Some 50"
    by (simp add: putExpiresAt_def toExpiresAt_def pickConfigWithTtl_def defined_def)
  have dead: "(50::int) \<le> 100" by simp
  from put_dead_on_arrival[OF a tk e dead, of 2]
  have "\<exists>st'. put None 100 ''k1'' 2 [''users''] False ?c ?st = Inr st' \<and>
      getItem st' ''__CT__:users:q:k1'' = None \<and>
      getItem st' ''__CTS__:users:users:q:k1'' = None"
    by (auto simp: vk ik)
  then show ?thesis by (simp add: getItem_def)
qed

text \<open>
  Claim C1. For every cache entry stored with a dependent-table set \<open>S\<close>, table
  invalidation for any single table of \<open>S\<close> deletes the entry's value record and every
  index record of that entry, including the index records keyed under tables of \<open>S\<close> that
  were not named in the mutation.

  The source does not: \<^verbatim>\<open>invalidateTables\<close> removes the value record and the index keys
  it enumerated under the mutated tables, and no other. Tag invalidation and
  \<^verbatim>\<open>dropEntry\<close> decode the digest and remove the index record of every table in it
  (lemma \<open>invalidateTag_removes_every_index_record\<close>);
  the table sweep has the digest in hand (\<^verbatim>\<open>parsed.tablesKey\<close>) and does not. An
  entry stored on \<^verbatim>\<open>users\<close> and \<^verbatim>\<open>posts\<close>, then a mutation of \<^verbatim>\<open>users\<close>: the index
  record under \<^verbatim>\<open>posts\<close> is all that is left in the storage.
\<close>

theorem invalidateTables_leaves_index_record:
  "put None 0 ''k1'' (1::nat) [''users'', ''posts''] False
     (Some \<lparr>ex = Some 60, px = None, exat = None, pxat = None, keepTtl = None\<rparr>) [] =
     Inr [(''__CT__:posts,users:q:k1'',
           Entry \<lparr>entryValue = 1, expiresAt = Some 60000,
                  entryTables = Some [''users'', ''posts'']\<rparr>),
          (''__CTS__:users:posts,users:q:k1'', Number 60000),
          (''__CTS__:posts:posts,users:q:k1'', Number 60000)] \<and>
   onMutate \<lparr>mutationTags = None, mutationTables = Some (Many [TableName ''users''])\<rparr>
     [(''__CT__:posts,users:q:k1'',
       Entry \<lparr>entryValue = 1::nat, expiresAt = Some 60000,
              entryTables = Some [''users'', ''posts'']\<rparr>),
      (''__CTS__:users:posts,users:q:k1'', Number 60000),
      (''__CTS__:posts:posts,users:q:k1'', Number 60000)] =
     Inr [(''__CTS__:posts:posts,users:q:k1'', Number 60000)]"
  by code_simp

end
